theory Spec2Isabelle
  imports Main "HOL-Library.Word"
begin

unbundle bit_operations_syntax

section \<open>Data model of \<open>helper_classes.py\<close>\<close>

text \<open>
  Exceptions of the Python source are values: a function that may raise returns
  \<open>py_error + 'a\<close>, with \<open>Inl\<close> for the exception. A method that mutates the store
  returns the store it leaves behind next to its result, so that the state after a
  raise is visible as well.
\<close>

datatype py_error = ValueError | IndexError | TypeError

text \<open>
  A segmentation mask is a two-dimensional \<open>uint8\<close> array, kept as its list of rows.
  A bounding box is an array of corner points \<open>[x, y]\<close>; \<open>point[0]\<close> is the first
  and \<open>point[1]\<close> the second component.
\<close>

type_synonym mask = "8 word list list"
type_synonym point = "int \<times> int"

record InstanceFrameData =
  frame_nr :: int
  segm_mask :: mask
  segm_bbox :: "point list"
  segm_rbox :: "point list"

record Instance =
  instance_id :: int
  instance_of :: string
  frames :: "InstanceFrameData list"

text \<open>
  \<open>Instance.__init__\<close>: the new instance holds exactly the frame it is created with.
\<close>

definition Instance_init :: "int \<Rightarrow> string \<Rightarrow> InstanceFrameData \<Rightarrow> Instance" where
  "Instance_init iid lbl first_FrameData =
     \<lparr>instance_id = iid, instance_of = lbl, frames = [first_FrameData]\<rparr>"

text \<open>
  \<open>InstanceDB\<close>: the list \<open>_instances\<close> and the counter \<open>_instanceid_cnt\<close>. The
  counter is a class attribute with value 0 that the first \<open>+=\<close> copies into the
  object, so every store counts from 0 whatever list it was constructed with.
  Instances are held by value: two entries of the list are never the same object.
\<close>

record InstanceDB =
  instances :: "Instance list"
  instanceid_cnt :: int

definition InstanceDB_init :: "Instance list option \<Rightarrow> InstanceDB" where
  "InstanceDB_init insts =
     \<lparr>instances = (case insts of None \<Rightarrow> [] | Some xs \<Rightarrow> xs), instanceid_cnt = 0\<rparr>"

section \<open>Operations of the instance store\<close>

text \<open>
  \<open>append_frame_to_instance\<close>: the loop appends the frame to every instance whose id
  matches and records whether there was one; only when none matched is the label
  looked at.
\<close>

definition append_frame_to_instance ::
  "InstanceDB \<Rightarrow> int \<Rightarrow> InstanceFrameData \<Rightarrow> string option \<Rightarrow> (py_error + unit) \<times> InstanceDB" where
  "append_frame_to_instance db iid new_frame_data lbl =
     (let found = list_ex (\<lambda>i. instance_id i = iid) (instances db);
          db1 = db\<lparr>instances :=
                  map (\<lambda>i. if instance_id i = iid
                            then i\<lparr>frames := frames i @ [new_frame_data]\<rparr> else i)
                      (instances db)\<rparr>
      in if \<not> found then
           (case lbl of
              Some l \<Rightarrow> (Inr (), db1\<lparr>instances := instances db1 @ [Instance_init iid l new_frame_data]\<rparr>)
            | None \<Rightarrow> (Inl ValueError, db1))
         else (Inr (), db1))"

text \<open>\<open>append\<close>: a given instance is put at the end of the list as it is.\<close>

definition append_InstanceDB :: "InstanceDB \<Rightarrow> Instance \<Rightarrow> InstanceDB" where
  "append_InstanceDB db item = db\<lparr>instances := instances db @ [item]\<rparr>"

text \<open>
  The queries walk the instances and, inside each, its frames: an instance
  is listed once for every frame of it that carries the frame number.
\<close>

definition get_instance_ids_in_frame :: "InstanceDB \<Rightarrow> int \<Rightarrow> int list" where
  "get_instance_ids_in_frame db f =
     concat (map (\<lambda>i. map (\<lambda>_. instance_id i) (filter (\<lambda>fr. frame_nr fr = f) (frames i)))
                 (instances db))"

definition get_instances_of_type_in_frame :: "InstanceDB \<Rightarrow> string \<Rightarrow> int \<Rightarrow> Instance list" where
  "get_instances_of_type_in_frame db lbl f =
     concat (map (\<lambda>i. if instance_of i = lbl
                       then map (\<lambda>_. i) (filter (\<lambda>fr. frame_nr fr = f) (frames i))
                       else [])
                 (instances db))"

definition get_unused_instance_id :: "InstanceDB \<Rightarrow> int \<times> InstanceDB" where
  "get_unused_instance_id db =
     (instanceid_cnt db + 1, db\<lparr>instanceid_cnt := instanceid_cnt db + 1\<rparr>)"

text \<open>
  \<open>clean\<close> returns the deleted instances and leaves the kept ones in the store;
  both comprehensions test membership of the id in \<open>keep_ids\<close>.
\<close>

definition clean :: "InstanceDB \<Rightarrow> int \<Rightarrow> Instance list \<times> InstanceDB" where
  "clean db f =
     (let keep_ids = get_instance_ids_in_frame db f;
          delete_instances = filter (\<lambda>i. instance_id i \<notin> set keep_ids) (instances db)
      in (delete_instances,
          db\<lparr>instances := filter (\<lambda>i. instance_id i \<in> set keep_ids) (instances db)\<rparr>))"

text \<open>
  The property the specification words as "has a FrameRecord with frame number f".
\<close>

definition has_frame :: "Instance \<Rightarrow> int \<Rightarrow> bool" where
  "has_frame i f = list_ex (\<lambda>fr. frame_nr fr = f) (frames i)"

section \<open>Looking a frame up in an instance\<close>

text \<open>
  The message of the \<open>IndexError\<close> is built with \<open>+\<close> from string literals, the
  frame number and \<open>repr(self)\<close>. Python's \<open>+\<close> is defined between two strings and
  between two integers; a string and an integer raise \<open>TypeError\<close>. The operands are
  evaluated and added from left to right, and the exception object is only built,
  and raised, when the whole message has been computed.
\<close>

datatype py_value = PyStr string | PyInt int

fun py_add :: "py_value \<Rightarrow> py_value \<Rightarrow> py_error + py_value" where
  "py_add (PyStr a) (PyStr b) = Inr (PyStr (a @ b))"
| "py_add (PyInt a) (PyInt b) = Inr (PyInt (a + b))"
| "py_add (PyStr a) (PyInt b) = Inl TypeError"
| "py_add (PyInt a) (PyStr b) = Inl TypeError"

definition py_bind :: "py_error + 'a \<Rightarrow> ('a \<Rightarrow> py_error + 'b) \<Rightarrow> py_error + 'b" where
  "py_bind r k = (case r of Inl e \<Rightarrow> Inl e | Inr v \<Rightarrow> k v)"

text \<open>\<open>str\<close> of an integer, in decimal.\<close>

fun str_nat :: "nat \<Rightarrow> string" where
  "str_nat n =
     (if n < 10 then [char_of (48 + n)]
      else str_nat (n div 10) @ [char_of (48 + n mod 10)])"

definition str_int :: "int \<Rightarrow> string" where
  "str_int i = (if i < 0 then CHR ''-'' # str_nat (nat (- i)) else str_nat (nat i))"

text \<open>
  \<open>InstanceFrameData.__repr__\<close> and \<open>Instance.__repr__\<close>. A frame of the model always
  carries its mask and both boxes, so the three flags read \<open>T\<close>. The \<open>__str__\<close> of a
  list joins the \<open>repr\<close> of its elements with a comma and a blank.
\<close>

definition repr_InstanceFrameData :: "InstanceFrameData \<Rightarrow> string" where
  "repr_InstanceFrameData fr = [CHR 0x27] @ str_int (frame_nr fr) @ ''TTT'' @ [CHR 0x27]"

fun join_comma :: "string list \<Rightarrow> string" where
  "join_comma [] = []"
| "join_comma [x] = x"
| "join_comma (x # y # ys) = x @ '', '' @ join_comma (y # ys)"

definition repr_Instance :: "Instance \<Rightarrow> string" where
  "repr_Instance i =
     ''{'' @ [CHR 0x27] @ ''i_id'' @ [CHR 0x27] @ '':'' @ str_int (instance_id i)
       @ '',i_of:'' @ [CHR 0x27] @ instance_of i @ [CHR 0x27] @ '',frames:''
       @ ''['' @ join_comma (map repr_InstanceFrameData (frames i)) @ '']'' @ ''}''"

definition get_frame_with_nr :: "Instance \<Rightarrow> int \<Rightarrow> py_error + InstanceFrameData" where
  "get_frame_with_nr i nr =
     (case find (\<lambda>fr. frame_nr fr = nr) (frames i) of
        Some fr \<Rightarrow> Inr fr
      | None \<Rightarrow>
          py_bind (py_add (PyStr ''could not find a frame with nr='') (PyInt nr)) (\<lambda>s1.
          py_bind (py_add s1 (PyStr '' in instance'')) (\<lambda>s2.
          py_bind (py_add s2 (PyStr (repr_Instance i))) (\<lambda>msg.
          Inl IndexError))))"

section \<open>The matching score of \<open>helper_functions.py\<close>\<close>

text \<open>
  \<open>get_equal_white_pixel_count\<close> on two arrays of one shape: \<open>img1 == img2\<close> is the
  array of booleans compared entry by entry; \<open>np.bitwise_and\<close> of a boolean and a
  \<open>uint8\<close> array promotes \<open>True\<close> to 1 and \<open>False\<close> to 0 and works bit by bit;
  \<open>np.count_nonzero\<close> counts the entries that are not 0. Arrays of different shapes
  (numpy's broadcasting, or its error) are outside this model: every mask of a run
  has the shape of the frame it was cut from.
\<close>

definition np_equal :: "mask \<Rightarrow> mask \<Rightarrow> bool list list" where
  "np_equal img1 img2 = map (\<lambda>(r1, r2). map (\<lambda>(a, b). a = b) (zip r1 r2)) (zip img1 img2)"

definition np_bitwise_and :: "bool list list \<Rightarrow> mask \<Rightarrow> mask" where
  "np_bitwise_and bs img =
     map (\<lambda>(rb, r). map (\<lambda>(b, x). (if b then 1 else 0) AND x) (zip rb r)) (zip bs img)"

definition np_count_nonzero :: "mask \<Rightarrow> int" where
  "np_count_nonzero img = int (length (filter (\<lambda>x. x \<noteq> 0) (concat img)))"

definition get_equal_white_pixel_count :: "mask \<Rightarrow> mask \<Rightarrow> int" where
  "get_equal_white_pixel_count img1 img2 =
     np_count_nonzero (np_bitwise_and (np_equal img1 img2) img1)"

text \<open>
  The specification's intersection score, from its words: the number of pixel
  positions that are foreground (nonzero) in both masks.
\<close>

definition both_foreground_count :: "mask \<Rightarrow> mask \<Rightarrow> int" where
  "both_foreground_count img1 img2 =
     int (length (filter (\<lambda>(a, b). a \<noteq> 0 \<and> b \<noteq> 0)
                         (concat (map (\<lambda>(r1, r2). zip r1 r2) (zip img1 img2)))))"

definition same_shape :: "mask \<Rightarrow> mask \<Rightarrow> bool" where
  "same_shape img1 img2 = (map length img1 = map length img2)"

definition binary_mask :: "mask \<Rightarrow> bool" where
  "binary_mask img = list_all (list_all (\<lambda>x. x = 0 \<or> x = 255)) img"

section \<open>The tracker loop of \<open>generate_video.py\<close>\<close>

text \<open>
  \<open>sorted(xs, key=k, reverse=True)\<close> is a stable sort by descending key: Python
  guarantees that elements with equal keys keep their original order, also with
  \<open>reverse=True\<close>. \<open>sort_key\<close> is a stable insertion sort by ascending key.
\<close>

definition py_sorted_reverse :: "('a \<Rightarrow> int) \<Rightarrow> 'a list \<Rightarrow> 'a list" where
  "py_sorted_reverse k xs = sort_key (\<lambda>x. - k x) xs"

text \<open>
  The list comprehension \<open>IOUs\<close>: one pair of id and score for each instance of the
  previous frame, in their order; a lookup that raises ends the comprehension.
\<close>

fun compute_IOUs :: "Instance list \<Rightarrow> int \<Rightarrow> mask \<Rightarrow> py_error + (int \<times> int) list" where
  "compute_IOUs [] nr inst_segm_mask = Inr []"
| "compute_IOUs (prev_inst # rest) nr inst_segm_mask =
     py_bind (get_frame_with_nr prev_inst nr) (\<lambda>fr.
     py_bind (compute_IOUs rest nr inst_segm_mask) (\<lambda>ious.
     Inr ((instance_id prev_inst, get_equal_white_pixel_count (segm_mask fr) inst_segm_mask)
          # ious)))"

text \<open>\<open>sorted(IOUs, key=lambda x: x[1], reverse=True)[0]\<close>; indexing an empty list raises.\<close>

definition select_best :: "(int \<times> int) list \<Rightarrow> py_error + (int \<times> int)" where
  "select_best IOUs =
     (case py_sorted_reverse snd IOUs of [] \<Rightarrow> Inl IndexError | b # _ \<Rightarrow> Inr b)"

text \<open>
  The choice of the instance id for one detection (one contour of one label in frame
  \<open>frameNr\<close>): the id of the best instance of the previous frame when its score is
  positive and the id is not yet in the current frame, a new id otherwise.
\<close>

definition choose_instance_id ::
  "InstanceDB \<Rightarrow> int \<Rightarrow> string \<Rightarrow> mask \<Rightarrow> py_error + (int \<times> InstanceDB)" where
  "choose_instance_id db frameNr lbl inst_segm_mask =
     (let instancesInPrevFrame = get_instances_of_type_in_frame db lbl (frameNr - 1)
      in if length instancesInPrevFrame > 0 then
           py_bind (compute_IOUs instancesInPrevFrame (frameNr - 1) inst_segm_mask) (\<lambda>IOUs.
           py_bind (select_best IOUs) (\<lambda>(best_previd, best_iou).
             let curInstancesInFrame = get_instance_ids_in_frame db frameNr
             in if best_iou > 0 \<and> best_previd \<notin> set curInstancesInFrame
                then Inr (best_previd, db)
                else Inr (get_unused_instance_id db)))
         else Inr (get_unused_instance_id db))"

text \<open>A detection: its label, mask, bounding box and rotated box.\<close>

type_synonym detection = "string \<times> mask \<times> point list \<times> point list"

definition commit_detection :: "InstanceDB \<Rightarrow> int \<Rightarrow> detection \<Rightarrow> (py_error + unit) \<times> InstanceDB" where
  "commit_detection db frameNr d =
     (case d of (lbl, inst_segm_mask, inst_segm_bbox, inst_segm_rbox) \<Rightarrow>
        (case choose_instance_id db frameNr lbl inst_segm_mask of
           Inl e \<Rightarrow> (Inl e, db)
         | Inr (instanceid, db1) \<Rightarrow>
             append_frame_to_instance db1 instanceid
               \<lparr>frame_nr = frameNr, segm_mask = inst_segm_mask,
                segm_bbox = inst_segm_bbox, segm_rbox = inst_segm_rbox\<rparr>
               (Some lbl)))"

text \<open>
  All detections of one frame, in the order the loops over the labels and over the
  contours of a label produce them. An exception ends the run.
\<close>

fun commit_detections :: "InstanceDB \<Rightarrow> int \<Rightarrow> detection list \<Rightarrow> (py_error + unit) \<times> InstanceDB" where
  "commit_detections db frameNr [] = (Inr (), db)"
| "commit_detections db frameNr (d # ds) =
     (case commit_detection db frameNr d of
        (Inl e, db1) \<Rightarrow> (Inl e, db1)
      | (Inr u, db1) \<Rightarrow> commit_detections db1 frameNr ds)"

section \<open>Tubes\<close>

text \<open>
  The running minima of a tube start at \<open>float("inf")\<close> and take integer values
  afterwards; the running maxima start at 0. \<open>py_lt x m\<close> is Python's \<open>x < m\<close> for an
  integer \<open>x\<close>: every integer is below infinity.
\<close>

datatype py_number = IntVal int | FloatInf

fun py_lt :: "int \<Rightarrow> py_number \<Rightarrow> bool" where
  "py_lt x FloatInf = True"
| "py_lt x (IntVal m) = (x < m)"

record Tube =
  label :: "string option"
  tube_id :: "int option"
  min_x :: py_number
  min_y :: py_number
  max_x :: int
  max_y :: int
  min_frame :: py_number
  max_frame :: int

text \<open>The class attributes of \<open>Tube\<close>, which every new tube starts from.\<close>

definition Tube_defaults :: Tube where
  "Tube_defaults =
     \<lparr>label = None, tube_id = None, min_x = FloatInf, min_y = FloatInf,
      max_x = 0, max_y = 0, min_frame = FloatInf, max_frame = 0\<rparr>"

definition scan_point :: "point \<Rightarrow> Tube \<Rightarrow> Tube" where
  "scan_point p t =
     t\<lparr>min_x := (if py_lt (fst p) (min_x t) then IntVal (fst p) else min_x t),
       min_y := (if py_lt (snd p) (min_y t) then IntVal (snd p) else min_y t),
       max_x := (if fst p > max_x t then fst p else max_x t),
       max_y := (if snd p > max_y t then snd p else max_y t)\<rparr>"

definition scan_frame :: "InstanceFrameData \<Rightarrow> Tube \<Rightarrow> Tube" where
  "scan_frame fr t =
     fold scan_point (segm_bbox fr)
       (t\<lparr>min_frame := (if py_lt (frame_nr fr) (min_frame t) then IntVal (frame_nr fr)
                         else min_frame t),
          max_frame := (if frame_nr fr > max_frame t then frame_nr fr else max_frame t)\<rparr>)"

definition create_from_instance :: "Tube \<Rightarrow> Instance \<Rightarrow> Tube" where
  "create_from_instance t i =
     (fold scan_frame (frames i) t)\<lparr>label := Some (instance_of i), tube_id := Some (instance_id i)\<rparr>"

definition Tube_init :: "Instance \<Rightarrow> Tube" where
  "Tube_init i = create_from_instance Tube_defaults i"

text \<open>
  The filter on \<open>tubeslist\<close>: \<open>tube.max_frame - tube.min_frame >= MIN_TUBE_LENGTH\<close>. An
  integer minus infinity is minus infinity, which is below every integer.
\<close>

definition long_enough :: "int \<Rightarrow> Tube \<Rightarrow> bool" where
  "long_enough MIN_TUBE_LENGTH tube =
     (case min_frame tube of
        IntVal lo \<Rightarrow> max_frame tube - lo \<ge> MIN_TUBE_LENGTH
      | FloatInf \<Rightarrow> False)"

definition tubeslist_filter :: "int \<Rightarrow> Tube list \<Rightarrow> Tube list" where
  "tubeslist_filter MIN_TUBE_LENGTH tubeslist = filter (long_enough MIN_TUBE_LENGTH) tubeslist"

section \<open>The loop over the frames\<close>

text \<open>
  The loop over the images, with the detections of each frame given: the commits
  of the frame, then \<open>clean\<close> and the tubes of the deleted instances, then the next
  frame number. The result is the store, the frame number and the tubes the loop
  ends with. Reading, drawing and writing images leave the store alone and are
  not part of the model.
\<close>

fun frame_loop ::
  "bool \<Rightarrow> InstanceDB \<Rightarrow> int \<Rightarrow> Tube list \<Rightarrow> detection list list
     \<Rightarrow> py_error + (InstanceDB \<times> int \<times> Tube list)" where
  "frame_loop SAVE_VIDEO_TUBES IDB frameNr tubeslist [] = Inr (IDB, frameNr, tubeslist)"
| "frame_loop SAVE_VIDEO_TUBES IDB frameNr tubeslist (dets # rest) =
     (case commit_detections IDB frameNr dets of
        (Inl e, db1) \<Rightarrow> Inl e
      | (Inr u, db1) \<Rightarrow>
          (case clean db1 frameNr of
             (deletedInstances, db2) \<Rightarrow>
               frame_loop SAVE_VIDEO_TUBES db2 (frameNr + 1)
                 (if SAVE_VIDEO_TUBES then tubeslist @ map Tube_init deletedInstances
                  else tubeslist)
                 rest))"

text \<open>
  The whole run: saving tubes is switched off when the video has fewer frames
  than \<open>MIN_TUBE_LENGTH\<close>; then the loop from an empty store at frame 0, the last
  \<open>clean\<close> with the frame number after the last frame, and the filter on the tubes.
\<close>

definition track_video ::
  "bool \<Rightarrow> int \<Rightarrow> detection list list \<Rightarrow> py_error + (InstanceDB \<times> Tube list)" where
  "track_video SAVE_VIDEO_TUBES MIN_TUBE_LENGTH frames_dets =
     (let save = (if SAVE_VIDEO_TUBES \<and> int (length frames_dets) < MIN_TUBE_LENGTH
                  then False else SAVE_VIDEO_TUBES)
      in case frame_loop save (InstanceDB_init None) 0 [] frames_dets of
           Inl e \<Rightarrow> Inl e
         | Inr (IDB, frameNr, tubeslist) \<Rightarrow>
             (case clean IDB frameNr of
                (deletedInstances, db2) \<Rightarrow>
                  Inr (db2,
                       if save
                       then tubeslist_filter MIN_TUBE_LENGTH
                              (tubeslist @ map Tube_init deletedInstances)
                       else tubeslist)))"

section \<open>Sequences of calls on one store\<close>

text \<open>
  A call of one of the four methods that change a store, and the ids that a
  sequence of such calls gets from \<open>get_unused_instance_id\<close>, in the order of the
  calls. A call that raises leaves the store as it is at that point, and the
  caller may go on.
\<close>

datatype store_call =
    Call_get_unused_instance_id
  | Call_append_frame_to_instance int InstanceFrameData "string option"
  | Call_clean int
  | Call_append Instance

fun returned_ids :: "InstanceDB \<Rightarrow> store_call list \<Rightarrow> int list" where
  "returned_ids db [] = []"
| "returned_ids db (Call_get_unused_instance_id # cs) =
     (case get_unused_instance_id db of (i, db1) \<Rightarrow> i # returned_ids db1 cs)"
| "returned_ids db (Call_append_frame_to_instance iid fr lbl # cs) =
     returned_ids (snd (append_frame_to_instance db iid fr lbl)) cs"
| "returned_ids db (Call_clean f # cs) = returned_ids (snd (clean db f)) cs"
| "returned_ids db (Call_append item # cs) = returned_ids (append_InstanceDB db item) cs"

text \<open>
  The store that a sequence of calls leaves behind, and the calls of the store's
  contract: \<open>get_unused_instance_id\<close>, \<open>append_frame_to_instance\<close> and \<open>clean\<close>. These
  are the calls the script makes; it never calls \<open>append\<close>, and it constructs its one
  store as \<open>InstanceDB()\<close>.
\<close>

fun store_after :: "InstanceDB \<Rightarrow> store_call list \<Rightarrow> InstanceDB" where
  "store_after db [] = db"
| "store_after db (Call_get_unused_instance_id # cs) =
     store_after (snd (get_unused_instance_id db)) cs"
| "store_after db (Call_append_frame_to_instance iid fr lbl # cs) =
     store_after (snd (append_frame_to_instance db iid fr lbl)) cs"
| "store_after db (Call_clean f # cs) = store_after (snd (clean db f)) cs"
| "store_after db (Call_append item # cs) = store_after (append_InstanceDB db item) cs"

fun contract_call :: "store_call \<Rightarrow> bool" where
  "contract_call (Call_append item) = False"
| "contract_call c = True"

section \<open>Auxiliary notions of the proofs\<close>

text \<open>The corner points of all frames of an instance, and its frame numbers.\<close>

definition corners :: "Instance \<Rightarrow> point list" where
  "corners i = concat (map segm_bbox (frames i))"

definition frame_numbers :: "Instance \<Rightarrow> int list" where
  "frame_numbers i = map frame_nr (frames i)"

text \<open>A running minimum from a start value, and a running maximum.\<close>

definition running_min :: "int list \<Rightarrow> py_number \<Rightarrow> py_number" where
  "running_min xs m = fold (\<lambda>x m. if py_lt x m then IntVal x else m) xs m"

definition running_max :: "int list \<Rightarrow> int \<Rightarrow> int" where
  "running_max xs m = fold (\<lambda>x m. if x > m then x else m) xs m"

text \<open>
  What holds of the store while the detections of frame \<open>f\<close> are committed: the live
  ids are pairwise different and none is above the counter, no frame number is
  above \<open>f\<close>, and no id is listed twice for frame \<open>f\<close>.
\<close>

definition tracker_inv :: "InstanceDB \<Rightarrow> int \<Rightarrow> bool" where
  "tracker_inv db f =
     (distinct (map instance_id (instances db))
      \<and> list_all (\<lambda>i. instance_id i \<le> instanceid_cnt db) (instances db)
      \<and> list_all (\<lambda>i. list_all (\<lambda>fr. frame_nr fr \<le> f) (frames i)) (instances db)
      \<and> distinct (get_instance_ids_in_frame db f))"

text \<open>The ids listed for a frame, as a function of the list of instances.\<close>

definition ids_in_frame :: "Instance list \<Rightarrow> int \<Rightarrow> int list" where
  "ids_in_frame xs f =
     concat (map (\<lambda>i. map (\<lambda>_. instance_id i) (filter (\<lambda>fr. frame_nr fr = f) (frames i))) xs)"

text \<open>What the loop of \<open>append_frame_to_instance\<close> does to one instance.\<close>

definition add_frame :: "int \<Rightarrow> InstanceFrameData \<Rightarrow> Instance \<Rightarrow> Instance" where
  "add_frame iid fr i = (if instance_id i = iid then i\<lparr>frames := frames i @ [fr]\<rparr> else i)"

section \<open>Example data\<close>

text \<open>
  A frame record with a mask of two rows and a box of four corners that moves one
  pixel to the right with every frame.
\<close>

definition example_frame :: "int \<Rightarrow> InstanceFrameData" where
  "example_frame n =
     \<lparr>frame_nr = n, segm_mask = [[255, 0], [0, 0]],
      segm_bbox = [(n, 2), (n, 5), (n + 4, 5), (n + 4, 2)],
      segm_rbox = [(n, 2), (n, 5), (n + 4, 5), (n + 4, 2)]\<rparr>"

text \<open>An instance seen in frames 0, 1 and 2.\<close>

definition kicker :: Instance where
  "kicker = \<lparr>instance_id = 5, instance_of = ''kicking'',
             frames = [example_frame 0, example_frame 1, example_frame 2]\<rparr>"

text \<open>A store with two live instances, the first seen in frames 0 and 1, the second in frame 0.\<close>

definition two_live :: InstanceDB where
  "two_live =
     \<lparr>instances =
        [\<lparr>instance_id = 1, instance_of = ''kicking'', frames = [example_frame 0, example_frame 1]\<rparr>,
         \<lparr>instance_id = 2, instance_of = ''walking'', frames = [example_frame 0]\<rparr>],
      instanceid_cnt = 2\<rparr>"

text \<open>
  Calls on a new store that leave \<open>two_live\<close> behind: two instances are created in
  frame 0, both survive \<open>clean 0\<close>, and the first is seen again in frame 1.
\<close>

definition two_live_calls :: "store_call list" where
  "two_live_calls =
     [Call_get_unused_instance_id,
      Call_append_frame_to_instance 1 (example_frame 0) (Some ''kicking''),
      Call_get_unused_instance_id,
      Call_append_frame_to_instance 2 (example_frame 0) (Some ''walking''),
      Call_clean 0,
      Call_append_frame_to_instance 1 (example_frame 1) None]"

text \<open>
  Three detections of one label: the first fills the upper row of a mask of two
  rows, the second and the third one pixel of that row each.
\<close>

definition upper_row :: detection where
  "upper_row = (''kicking'', [[255, 255], [0, 0]], [(0, 0), (0, 1), (2, 1), (2, 0)],
                [(0, 0), (0, 1), (2, 1), (2, 0)])"

definition upper_left :: detection where
  "upper_left = (''kicking'', [[255, 0], [0, 0]], [(0, 0), (0, 1), (1, 1), (1, 0)],
                 [(0, 0), (0, 1), (1, 1), (1, 0)])"

definition upper_right :: detection where
  "upper_right = (''kicking'', [[0, 255], [0, 0]], [(1, 0), (1, 1), (2, 1), (2, 0)],
                  [(1, 0), (1, 1), (2, 1), (2, 0)])"

text \<open>A store with two instances of one label in frame 0, one pixel each.\<close>

definition two_kickers :: InstanceDB where
  "two_kickers =
     \<lparr>instances =
        [\<lparr>instance_id = 1, instance_of = ''kicking'',
          frames = [\<lparr>frame_nr = 0, segm_mask = [[255, 0], [0, 0]],
                     segm_bbox = [(0, 0), (0, 1), (1, 1), (1, 0)],
                     segm_rbox = [(0, 0), (0, 1), (1, 1), (1, 0)]\<rparr>]\<rparr>,
         \<lparr>instance_id = 2, instance_of = ''kicking'',
          frames = [\<lparr>frame_nr = 0, segm_mask = [[0, 255], [0, 0]],
                     segm_bbox = [(1, 0), (1, 1), (2, 1), (2, 0)],
                     segm_rbox = [(1, 0), (1, 1), (2, 1), (2, 0)]\<rparr>]\<rparr>],
      instanceid_cnt = 2\<rparr>"

text \<open>The store after a first frame with the one detection \<open>upper_row\<close>.\<close>

definition after_first_frame :: InstanceDB where
  "after_first_frame =
     \<lparr>instances =
        [\<lparr>instance_id = 1, instance_of = ''kicking'',
          frames = [\<lparr>frame_nr = 0, segm_mask = [[255, 255], [0, 0]],
                     segm_bbox = [(0, 0), (0, 1), (2, 1), (2, 0)],
                     segm_rbox = [(0, 0), (0, 1), (2, 1), (2, 0)]\<rparr>]\<rparr>],
      instanceid_cnt = 1\<rparr>"

section \<open>The instance store: appending, cleaning, fresh ids\<close>

lemma ids_in_frame_mem:
  "x \<in> set (ids_in_frame xs f) \<longleftrightarrow> (\<exists>j\<in>set xs. instance_id j = x \<and> has_frame j f)"
  by (induction xs) (auto simp: ids_in_frame_def has_frame_def list_ex_iff filter_empty_conv)

lemma get_ids_conv: "get_instance_ids_in_frame db f = ids_in_frame (instances db) f"
  by (simp add: get_instance_ids_in_frame_def ids_in_frame_def)

text \<open>
  In a store whose live instances have pairwise different ids, \<open>clean f\<close> returns
  exactly the live instances without a frame record for \<open>f\<close>, in their order, and
  leaves exactly those with one.
\<close>

lemma clean_partition_distinct:
  assumes d: "distinct (map instance_id (instances db))"
  shows "fst (clean db f) = filter (\<lambda>i. \<not> has_frame i f) (instances db)
    \<and> instances (snd (clean db f)) = filter (\<lambda>i. has_frame i f) (instances db)"
proof -
  have key: "\<And>i. i \<in> set (instances db) \<Longrightarrow>
      instance_id i \<in> set (get_instance_ids_in_frame db f) \<longleftrightarrow> has_frame i f"
    using d by (auto simp: get_ids_conv ids_in_frame_mem distinct_map inj_on_def)
  have "fst (clean db f) = filter (\<lambda>i. \<not> has_frame i f) (instances db)"
    using key by (simp add: clean_def Let_def cong: filter_cong)
  moreover have "instances (snd (clean db f)) = filter (\<lambda>i. has_frame i f) (instances db)"
    using key by (simp add: clean_def Let_def cong: filter_cong)
  ultimately show ?thesis by simp
qed

text \<open>
  A frame number above all recorded frame numbers makes \<open>clean\<close> return every live
  instance and leave the store empty.
\<close>

lemma clean_after_last_frame:
  assumes "\<forall>i\<in>set (instances db). \<forall>fr\<in>set (frames i). frame_nr fr < f"
  shows "fst (clean db f) = instances db \<and> instances (snd (clean db f)) = []"
proof -
  have e: "get_instance_ids_in_frame db f = []"
    using assms by (auto simp: get_instance_ids_in_frame_def filter_empty_conv)
  show ?thesis unfolding clean_def Let_def e by simp
qed

lemma add_frame_absent: "iid \<notin> instance_id ` set xs \<Longrightarrow> map (add_frame iid fr) xs = xs"
  by (induction xs) (auto simp: add_frame_def)

lemma append_frame_found:
  "iid \<in> instance_id ` set (instances db) \<Longrightarrow>
     append_frame_to_instance db iid fr lbl
       = (Inr (), db\<lparr>instances := map (add_frame iid fr) (instances db)\<rparr>)"
proof -
  have m: "map (\<lambda>i. if instance_id i = iid then i\<lparr>frames := frames i @ [fr]\<rparr> else i) (instances db)
           = map (add_frame iid fr) (instances db)"
    by (simp add: add_frame_def)
  show "iid \<in> instance_id ` set (instances db) \<Longrightarrow> ?thesis"
    unfolding append_frame_to_instance_def Let_def m
    by (auto simp: list_ex_iff image_iff)
qed

lemma append_frame_not_found:
  "iid \<notin> instance_id ` set (instances db) \<Longrightarrow>
     append_frame_to_instance db iid fr lbl
       = (case lbl of
            Some l \<Rightarrow> (Inr (), db\<lparr>instances := instances db @ [Instance_init iid l fr]\<rparr>)
          | None \<Rightarrow> (Inl ValueError, db))"
proof -
  have m: "map (\<lambda>i. if instance_id i = iid then i\<lparr>frames := frames i @ [fr]\<rparr> else i) (instances db)
           = map (add_frame iid fr) (instances db)"
    by (simp add: add_frame_def)
  show "iid \<notin> instance_id ` set (instances db) \<Longrightarrow> ?thesis"
    unfolding append_frame_to_instance_def Let_def m
    by (auto simp: list_ex_iff image_iff add_frame_absent split: option.splits)
qed

text \<open>Every call of the contract keeps the ids of the live instances pairwise different.\<close>

lemma append_frame_distinct:
  assumes "distinct (map instance_id (instances db))"
  shows "distinct (map instance_id (instances (snd (append_frame_to_instance db iid fr lbl))))"
proof (cases "iid \<in> instance_id ` set (instances db)")
  case True
  have "map instance_id (map (add_frame iid fr) xs) = map instance_id xs" for xs
    by (induction xs) (simp_all add: add_frame_def)
  then show ?thesis using assms by (simp add: append_frame_found [OF True] del: map_map)
next
  case False
  then show ?thesis
    using assms by (auto simp: append_frame_not_found Instance_init_def split: option.splits)
qed

lemma clean_distinct:
  "distinct (map instance_id (instances db)) \<Longrightarrow>
     distinct (map instance_id (instances (snd (clean db f))))"
  by (simp add: clean_def Let_def distinct_map_filter)

lemma store_after_distinct:
  "distinct (map instance_id (instances db)) \<Longrightarrow> list_all contract_call cs \<Longrightarrow>
     distinct (map instance_id (instances (store_after db cs)))"
proof (induction db cs rule: store_after.induct)
  case (2 db cs)
  then show ?case by (simp add: get_unused_instance_id_def)
next
  case (3 db iid fr lbl cs)
  then show ?case using append_frame_distinct [of db iid fr lbl] by simp
next
  case (4 db f cs)
  then show ?case using clean_distinct [of db f] by simp
qed simp_all

text \<open>
  C1. In every state of the store, that is, after every sequence of calls of the
  store's contract on a new store, and for every frame number \<open>f\<close>: \<open>clean f\<close>
  returns exactly the live instances without a frame record for \<open>f\<close> and leaves
  exactly those with one; and when \<open>f\<close> is above every recorded frame number, as in
  the call after the last frame, it returns every live instance and leaves the
  store empty.
\<close>

theorem clean_partition:
  assumes "list_all contract_call cs" and "db = store_after (InstanceDB_init None) cs"
  shows "fst (clean db f) = filter (\<lambda>i. \<not> has_frame i f) (instances db)
    \<and> instances (snd (clean db f)) = filter (\<lambda>i. has_frame i f) (instances db)
    \<and> ((\<forall>i\<in>set (instances db). \<forall>fr\<in>set (frames i). frame_nr fr < f) \<longrightarrow>
          fst (clean db f) = instances db \<and> instances (snd (clean db f)) = [])"
proof -
  have "distinct (map instance_id (instances (InstanceDB_init None)))"
    by (simp add: InstanceDB_init_def)
  then have "distinct (map instance_id (instances db))"
    using store_after_distinct [OF _ assms(1)] assms(2) by simp
  then show ?thesis
    using clean_partition_distinct [of db f] clean_after_last_frame [of db f] by blast
qed

theorem clean_partition_witness:
  "list_all contract_call two_live_calls
   \<and> store_after (InstanceDB_init None) two_live_calls = two_live
   \<and> fst (clean two_live 1) = [instances two_live ! 1]
   \<and> instances (snd (clean two_live 1)) = [instances two_live ! 0]
   \<and> fst (clean two_live 2) = instances two_live
   \<and> instances (snd (clean two_live 2)) = []"
proof -
  have c: "list_all contract_call two_live_calls" by (simp add: two_live_calls_def)
  have s: "store_after (InstanceDB_init None) two_live_calls = two_live" by code_simp
  show ?thesis
    using clean_partition [OF c s [symmetric], of 1] clean_partition [OF c s [symmetric], of 2] c
    by (simp add: s) (simp add: two_live_def has_frame_def example_frame_def)
qed

text \<open>
  C2. When a live instance has the id, the frame record is appended to the frames of
  the instances with that id, whatever the label argument is. When none has it and
  a label is given, a new instance with that id, that label and the frame record
  as its only frame is put at the end of the store. \<open>ValueError\<close> is raised exactly
  when no live instance has the id and no label is given, and then the store is
  unchanged.
\<close>

theorem append_frame_to_instance_cases:
  "((\<exists>i\<in>set (instances db). instance_id i = iid) \<longrightarrow>
      append_frame_to_instance db iid fr lbl =
        (Inr (), db\<lparr>instances := map (\<lambda>i. if instance_id i = iid
                                          then i\<lparr>frames := frames i @ [fr]\<rparr> else i)
                                     (instances db)\<rparr>))
   \<and> (\<not> (\<exists>i\<in>set (instances db). instance_id i = iid) \<longrightarrow>
      append_frame_to_instance db iid fr (Some l) =
        (Inr (), db\<lparr>instances := instances db
                        @ [\<lparr>instance_id = iid, instance_of = l, frames = [fr]\<rparr>]\<rparr>))
   \<and> (fst (append_frame_to_instance db iid fr lbl) = Inl ValueError
        \<longleftrightarrow> \<not> (\<exists>i\<in>set (instances db). instance_id i = iid) \<and> lbl = None)
   \<and> (fst (append_frame_to_instance db iid fr lbl) = Inl ValueError
        \<longrightarrow> snd (append_frame_to_instance db iid fr lbl) = db)"
proof (cases "iid \<in> instance_id ` set (instances db)")
  case True
  then have "\<exists>i\<in>set (instances db). instance_id i = iid" by auto
  then show ?thesis
    using append_frame_found [OF True, of fr lbl] by (simp add: add_frame_def)
next
  case False
  then have "\<not> (\<exists>i\<in>set (instances db). instance_id i = iid)" by auto
  then show ?thesis
    using append_frame_not_found [OF False, of fr lbl] append_frame_not_found [OF False, of fr "Some l"]
    by (auto simp: Instance_init_def split: option.splits)
qed

theorem append_frame_to_instance_cases_witness:
  "append_frame_to_instance two_live 2 (example_frame 1) None
     = (Inr (), two_live\<lparr>instances :=
          [instances two_live ! 0,
           \<lparr>instance_id = 2, instance_of = ''walking'',
            frames = [example_frame 0, example_frame 1]\<rparr>]\<rparr>)
   \<and> append_frame_to_instance two_live 3 (example_frame 1) (Some ''running'')
     = (Inr (), two_live\<lparr>instances := instances two_live
          @ [\<lparr>instance_id = 3, instance_of = ''running'', frames = [example_frame 1]\<rparr>]\<rparr>)
   \<and> append_frame_to_instance two_live 3 (example_frame 1) None = (Inl ValueError, two_live)"
  using append_frame_to_instance_cases [of two_live 2 "example_frame 1" None "''running''"]
    append_frame_to_instance_cases [of two_live 3 "example_frame 1" None "''running''"]
  by (simp add: two_live_def prod_eq_iff)

text \<open>
  C10. For an id that a live instance has, and for every label argument (none, the
  instance's own or another one), the call succeeds, the ids and the labels of the
  live instances are what they were, and the frame record is at the end of the
  frames of the instances with that id: the label argument is never compared with
  the label of the instance.
\<close>

theorem append_frame_keeps_id_and_label:
  "\<exists>i\<in>set (instances db). instance_id i = iid \<Longrightarrow>
     fst (append_frame_to_instance db iid fr lbl) = Inr ()
     \<and> map instance_id (instances (snd (append_frame_to_instance db iid fr lbl)))
         = map instance_id (instances db)
     \<and> map instance_of (instances (snd (append_frame_to_instance db iid fr lbl)))
         = map instance_of (instances db)
     \<and> map frames (instances (snd (append_frame_to_instance db iid fr lbl)))
         = map (\<lambda>i. if instance_id i = iid then frames i @ [fr] else frames i) (instances db)"
  by (auto simp: append_frame_to_instance_def Let_def list_ex_iff)

theorem append_frame_keeps_id_and_label_witness:
  "(\<exists>i\<in>set (instances two_live). instance_id i = 2)
   \<and> fst (append_frame_to_instance two_live 2 (example_frame 1) (Some ''kicking'')) = Inr ()
   \<and> map instance_of
        (instances (snd (append_frame_to_instance two_live 2 (example_frame 1) (Some ''kicking''))))
       = [''kicking'', ''walking'']
   \<and> map frames
        (instances (snd (append_frame_to_instance two_live 2 (example_frame 1) (Some ''kicking''))))
       = [[example_frame 0, example_frame 1], [example_frame 0, example_frame 1]]"
  using append_frame_keeps_id_and_label [of two_live 2 "example_frame 1" "Some ''kicking''"]
  by (simp add: two_live_def)

lemma cnt_append_frame:
  "instanceid_cnt (snd (append_frame_to_instance db iid fr lbl)) = instanceid_cnt db"
  by (simp add: append_frame_to_instance_def Let_def split: option.splits)

lemma cnt_clean: "instanceid_cnt (snd (clean db f)) = instanceid_cnt db"
  by (simp add: clean_def Let_def)

lemma cnt_append_item: "instanceid_cnt (append_InstanceDB db item) = instanceid_cnt db"
  by (simp add: append_InstanceDB_def)

lemma returned_ids_above: "i \<in> set (returned_ids db cs) \<Longrightarrow> instanceid_cnt db < i"
proof (induction db cs rule: returned_ids.induct)
  case (2 db cs)
  then show ?case by (fastforce simp: get_unused_instance_id_def)
qed (auto simp: cnt_append_frame cnt_clean cnt_append_item)

lemma returned_ids_increasing: "sorted_wrt (<) (returned_ids db cs)"
proof (induction db cs rule: returned_ids.induct)
  case (2 db cs)
  then show ?case
    using returned_ids_above [of _ "db\<lparr>instanceid_cnt := instanceid_cnt db + 1\<rparr>" cs]
    by (auto simp: get_unused_instance_id_def)
qed auto

text \<open>
  C8. The ids that any sequence of calls on a new store gets from
  \<open>get_unused_instance_id\<close>, with calls of the other methods in between, are
  strictly increasing in the order of the calls, positive, and pairwise different.
\<close>

theorem unused_ids_increasing:
  "sorted_wrt (<) (returned_ids (InstanceDB_init insts) cs)
   \<and> (\<forall>i\<in>set (returned_ids (InstanceDB_init insts) cs). 0 < i)
   \<and> distinct (returned_ids (InstanceDB_init insts) cs)"
proof -
  have "distinct (returned_ids (InstanceDB_init insts) cs)"
    using returned_ids_increasing [of "InstanceDB_init insts" cs]
    by (simp add: strict_sorted_iff)
  moreover have "\<forall>i\<in>set (returned_ids (InstanceDB_init insts) cs). 0 < i"
    using returned_ids_above [of _ "InstanceDB_init insts" cs]
    by (auto simp: InstanceDB_init_def)
  ultimately show ?thesis using returned_ids_increasing by blast
qed

theorem unused_ids_increasing_witness:
  "returned_ids (InstanceDB_init None)
     [Call_get_unused_instance_id,
      Call_append_frame_to_instance 1 (example_frame 0) (Some ''kicking''),
      Call_clean 1,
      Call_get_unused_instance_id,
      Call_get_unused_instance_id] = [1, 2, 3]"
  using unused_ids_increasing [of None
     "[Call_get_unused_instance_id,
      Call_append_frame_to_instance 1 (example_frame 0) (Some ''kicking''),
      Call_clean 1,
      Call_get_unused_instance_id,
      Call_get_unused_instance_id]"]
  by (simp add: InstanceDB_init_def get_unused_instance_id_def cnt_append_frame cnt_clean)

section \<open>Looking up a frame\<close>

lemma get_frame_with_nr_found:
  assumes "has_frame i nr"
  shows "\<exists>fr\<in>set (frames i). frame_nr fr = nr \<and> get_frame_with_nr i nr = Inr fr"
proof -
  obtain fr where f: "find (\<lambda>fr. frame_nr fr = nr) (frames i) = Some fr"
    using assms by (cases "find (\<lambda>fr. frame_nr fr = nr) (frames i)")
      (auto simp: has_frame_def list_ex_iff find_None_iff)
  then have "fr \<in> set (frames i) \<and> frame_nr fr = nr"
    by (auto simp: find_Some_iff)
  with f show ?thesis
    by (auto simp: get_frame_with_nr_def)
qed

lemma get_frame_with_nr_missing:
  assumes "\<not> has_frame i nr"
  shows "get_frame_with_nr i nr = Inl TypeError"
proof -
  have "find (\<lambda>fr. frame_nr fr = nr) (frames i) = None"
    using assms by (simp add: has_frame_def list_ex_iff find_None_iff)
  then show ?thesis
    by (simp add: get_frame_with_nr_def py_bind_def)
qed

text \<open>
  C9, at an instance seen in frames 0, 1 and 2 that is asked for frame 3: the frame
  of a recorded number is returned, and the lookup of the missing number ends in
  \<open>TypeError\<close>, raised by the concatenation of the message with the integer frame
  number before the \<open>IndexError\<close> is built.
\<close>

theorem get_frame_with_nr_missing_raises_TypeError:
  "get_frame_with_nr kicker 1 = Inr (example_frame 1)
   \<and> get_frame_with_nr kicker 3 = Inl TypeError"
  by (simp add: get_frame_with_nr_def kicker_def example_frame_def py_bind_def)

section \<open>The matching score\<close>

lemma pixel_both_white:
  "a = 0 \<or> a = 255 \<Longrightarrow> b = 0 \<or> b = 255 \<Longrightarrow>
     ((if a = b then 1 else 0) AND a \<noteq> 0) = (a \<noteq> 0 \<and> b \<noteq> (0::8 word))"
  by auto

lemma row_count:
  "list_all (\<lambda>x. x = 0 \<or> x = 255) r1 \<Longrightarrow> list_all (\<lambda>x. x = 0 \<or> x = 255) r2 \<Longrightarrow>
   length (filter (\<lambda>x. x \<noteq> 0)
      (map (\<lambda>(b, x). (if b then 1 else 0) AND x) (zip (map (\<lambda>(a, b). a = b) (zip r1 r2)) r1)))
   = length (filter (\<lambda>(a, b). a \<noteq> 0 \<and> b \<noteq> (0::8 word)) (zip r1 r2))"
proof (induction r1 r2 rule: list_induct2')
  case (4 x xs y ys)
  then show ?case using pixel_both_white [of x y] by (auto split: if_splits)
qed auto

lemma rows_count:
  "list_all (list_all (\<lambda>x. x = 0 \<or> x = 255)) m1 \<Longrightarrow>
   list_all (list_all (\<lambda>x. x = 0 \<or> x = 255)) m2 \<Longrightarrow>
   length (filter (\<lambda>x. x \<noteq> 0) (concat
      (map (\<lambda>(rb, r). map (\<lambda>(b, x). (if b then 1 else 0) AND x) (zip rb r))
           (zip (map (\<lambda>(r1, r2). map (\<lambda>(a, b). a = b) (zip r1 r2)) (zip m1 m2)) m1))))
   = length (filter (\<lambda>(a, b). a \<noteq> 0 \<and> b \<noteq> (0::8 word))
        (concat (map (\<lambda>(r1, r2). zip r1 r2) (zip m1 m2))))"
proof (induction m1 m2 rule: list_induct2')
  case (4 r1 m1 r2 m2)
  then show ?case using row_count [of r1 r2] by simp
qed auto

text \<open>
  C4. For two masks of one shape whose entries are 0 or 255, the score of
  \<open>get_equal_white_pixel_count\<close> is the number of positions that are nonzero in
  both masks: the plain count, divided by nothing.
\<close>

theorem score_is_intersection_count:
  "same_shape img1 img2 \<Longrightarrow> binary_mask img1 \<Longrightarrow> binary_mask img2 \<Longrightarrow>
     get_equal_white_pixel_count img1 img2 = both_foreground_count img1 img2"
  using rows_count [of img1 img2]
  by (simp add: get_equal_white_pixel_count_def both_foreground_count_def np_count_nonzero_def
      np_bitwise_and_def np_equal_def binary_mask_def)

theorem score_is_intersection_count_witness:
  "same_shape [[255, 0, 255], [0, 255, 255]] [[255, 255, 0], [0, 255, 255]]
   \<and> binary_mask [[255, 0, 255], [0, 255, 255]]
   \<and> binary_mask [[255, 255, 0], [0, 255, 255]]
   \<and> get_equal_white_pixel_count [[255, 0, 255], [0, 255, 255]] [[255, 255, 0], [0, 255, 255]] = 3
   \<and> both_foreground_count [[255, 0, 255], [0, 255, 255]] [[255, 255, 0], [0, 255, 255]] = 3"
  using score_is_intersection_count
          [of "[[255, 0, 255], [0, 255, 255]]" "[[255, 255, 0], [0, 255, 255]]"]
  by (simp add: same_shape_def binary_mask_def both_foreground_count_def)

section \<open>The best instance of the previous frame\<close>

lemma hd_insort_key:
  "hd (insort_key f x ys) = (if ys = [] \<or> f x \<le> f (hd ys) then x else hd ys)"
  by (cases ys) auto

text \<open>
  The head of a list sorted by \<open>sort_key\<close> is the first element of the list whose
  key is least.
\<close>

lemma hd_sort_key_first_min:
  "xs \<noteq> [] \<Longrightarrow> \<exists>i<length xs. hd (sort_key f xs) = xs ! i
      \<and> (\<forall>j<length xs. f (xs ! i) \<le> f (xs ! j)) \<and> (\<forall>j<i. f (xs ! i) < f (xs ! j))"
proof (induction xs)
  case Nil
  then show ?case by simp
next
  case (Cons x xs)
  show ?case
  proof (cases "xs = []")
    case True
    then show ?thesis by simp
  next
    case False
    then obtain i where i: "i < length xs" "hd (sort_key f xs) = xs ! i"
      "\<forall>j<length xs. f (xs ! i) \<le> f (xs ! j)" "\<forall>j<i. f (xs ! i) < f (xs ! j)"
      using Cons.IH by blast
    have ne: "sort_key f xs \<noteq> []" using False by (metis length_sort length_0_conv)
    show ?thesis
    proof (cases "f x \<le> f (xs ! i)")
      case True
      then have "hd (sort_key f (x # xs)) = (x # xs) ! 0"
        using i(2) by (simp add: hd_insort_key)
      moreover have "\<forall>j<length (x # xs). f ((x # xs) ! 0) \<le> f ((x # xs) ! j)"
        using True i(3) by (auto simp: nth_Cons split: nat.splits intro: order_trans)
      ultimately show ?thesis by (intro exI[of _ 0]) simp
    next
      case False
      then have lt: "f (xs ! i) < f x" by simp
      have "hd (sort_key f (x # xs)) = (x # xs) ! Suc i"
        using False i(2) ne by (simp add: hd_insort_key)
      moreover have "\<forall>j<length (x # xs). f ((x # xs) ! Suc i) \<le> f ((x # xs) ! j)"
        using lt i(3) by (auto simp: nth_Cons split: nat.splits)
      moreover have "\<forall>j<Suc i. f ((x # xs) ! Suc i) < f ((x # xs) ! j)"
        using lt i(4) by (auto simp: nth_Cons split: nat.splits)
      ultimately show ?thesis using i(1) by (intro exI[of _ "Suc i"]) simp
    qed
  qed
qed

lemma select_best_first_max:
  assumes "IOUs \<noteq> []"
  shows "\<exists>i<length IOUs. select_best IOUs = Inr (IOUs ! i)
      \<and> (\<forall>j<length IOUs. snd (IOUs ! j) \<le> snd (IOUs ! i))
      \<and> (\<forall>j<i. snd (IOUs ! j) < snd (IOUs ! i))"
proof -
  let ?s = "sort_key (\<lambda>x. - snd x) IOUs"
  have "?s \<noteq> []" using assms by (metis length_sort length_0_conv)
  then have sel: "select_best IOUs = Inr (hd ?s)"
    by (cases ?s) (auto simp: select_best_def py_sorted_reverse_def)
  obtain i where "i < length IOUs" "hd ?s = IOUs ! i"
    "\<forall>j<length IOUs. - snd (IOUs ! i) \<le> - snd (IOUs ! j)"
    "\<forall>j<i. - snd (IOUs ! i) < - snd (IOUs ! j)"
    using hd_sort_key_first_min [OF assms, of "\<lambda>x. - snd x"] by blast
  then show ?thesis using sel by (intro exI[of _ i]) simp
qed

lemma type_in_frame_mem:
  "i \<in> set (get_instances_of_type_in_frame db lbl f)
     \<longleftrightarrow> i \<in> set (instances db) \<and> instance_of i = lbl \<and> has_frame i f"
  by (auto simp: get_instances_of_type_in_frame_def has_frame_def list_ex_iff filter_empty_conv)

text \<open>
  On instances that all have a frame of the number, the comprehension succeeds
  and pairs every instance, in order, with its id and the score of the mask of its
  frame of that number.
\<close>

lemma compute_IOUs_total:
  "\<forall>i\<in>set C. has_frame i nr \<Longrightarrow>
     \<exists>IOUs. compute_IOUs C nr m = Inr IOUs
       \<and> list_all2 (\<lambda>c p. fst p = instance_id c
            \<and> (\<exists>fr. get_frame_with_nr c nr = Inr fr
                  \<and> snd p = get_equal_white_pixel_count (segm_mask fr) m)) C IOUs"
proof (induction C)
  case Nil
  then show ?case by simp
next
  case (Cons c C)
  obtain fr where "get_frame_with_nr c nr = Inr fr"
    using Cons.prems get_frame_with_nr_found [of c nr] by auto
  moreover obtain IOUs where "compute_IOUs C nr m = Inr IOUs"
    "list_all2 (\<lambda>c p. fst p = instance_id c
            \<and> (\<exists>fr. get_frame_with_nr c nr = Inr fr
                  \<and> snd p = get_equal_white_pixel_count (segm_mask fr) m)) C IOUs"
    using Cons by auto
  ultimately show ?case by (simp add: py_bind_def)
qed

text \<open>
  C5. For a non-empty list \<open>C\<close> returned by \<open>get_instances_of_type_in_frame\<close>, the list
  of pairs is computed without an exception and pairs the instances of \<open>C\<close>, in
  their order, with their ids and scores; the pair selected as best is the one at
  an index \<open>i\<close> whose score no other score exceeds and which every score at an
  earlier index stays below: a maximum, and among several maxima the first in the
  order of \<open>C\<close>.
\<close>

theorem best_is_first_maximum:
  assumes "C = get_instances_of_type_in_frame db lbl nr" and "C \<noteq> []"
  shows "\<exists>IOUs i. compute_IOUs C nr m = Inr IOUs
      \<and> list_all2 (\<lambda>c p. fst p = instance_id c
            \<and> (\<exists>fr. get_frame_with_nr c nr = Inr fr
                  \<and> snd p = get_equal_white_pixel_count (segm_mask fr) m)) C IOUs
      \<and> i < length C
      \<and> select_best IOUs = Inr (IOUs ! i)
      \<and> (\<forall>j<length C. snd (IOUs ! j) \<le> snd (IOUs ! i))
      \<and> (\<forall>j<i. snd (IOUs ! j) < snd (IOUs ! i))"
proof -
  have "\<forall>i\<in>set C. has_frame i nr" using assms(1) by (simp add: type_in_frame_mem)
  then obtain IOUs where I: "compute_IOUs C nr m = Inr IOUs"
    "list_all2 (\<lambda>c p. fst p = instance_id c
            \<and> (\<exists>fr. get_frame_with_nr c nr = Inr fr
                  \<and> snd p = get_equal_white_pixel_count (segm_mask fr) m)) C IOUs"
    using compute_IOUs_total by blast
  then have len: "length IOUs = length C" by (simp add: list_all2_lengthD)
  then have "IOUs \<noteq> []" using assms(2) by auto
  then obtain i where "i < length IOUs" "select_best IOUs = Inr (IOUs ! i)"
    "\<forall>j<length IOUs. snd (IOUs ! j) \<le> snd (IOUs ! i)" "\<forall>j<i. snd (IOUs ! j) < snd (IOUs ! i)"
    using select_best_first_max by blast
  then show ?thesis using I len by (intro exI[of _ IOUs] exI[of _ i]) simp
qed

theorem best_is_first_maximum_witness:
  "get_instances_of_type_in_frame two_kickers ''kicking'' 0 = instances two_kickers
   \<and> instances two_kickers \<noteq> []
   \<and> compute_IOUs (instances two_kickers) 0 [[255, 255], [0, 0]] = Inr [(1, 1), (2, 1)]
   \<and> select_best [(1, 1), (2, 1)] = Inr (1, 1)"
proof -
  have c: "instances two_kickers = get_instances_of_type_in_frame two_kickers ''kicking'' 0"
    by code_simp
  have n: "instances two_kickers \<noteq> []" by (simp add: two_kickers_def)
  have e: "compute_IOUs (instances two_kickers) 0 [[255, 255], [0, 0]] = Inr [(1, 1), (2, 1)]"
    by code_simp
  have s: "select_best [(1, 1), (2, 1)] = Inr (1, 1)" by code_simp
  show ?thesis
    using best_is_first_maximum [OF c n, of "[[255, 255], [0, 0]]"] c n e s by simp
qed

section \<open>One id for each detection of a frame\<close>

lemma ids_in_frame_simps [simp]:
  "ids_in_frame [] f = []"
  "ids_in_frame (x # xs) f
     = map (\<lambda>_. instance_id x) (filter (\<lambda>fr. frame_nr fr = f) (frames x)) @ ids_in_frame xs f"
  "ids_in_frame (xs @ ys) f = ids_in_frame xs f @ ids_in_frame ys f"
  by (simp_all add: ids_in_frame_def)

lemma ids_in_frame_subset: "set (ids_in_frame xs f) \<subseteq> instance_id ` set xs"
  by (induction xs) auto

lemma ids_in_frame_none:
  "\<forall>i\<in>set xs. \<forall>fr\<in>set (frames i). frame_nr fr \<noteq> f \<Longrightarrow> ids_in_frame xs f = []"
  by (induction xs) (auto simp: filter_empty_conv)

lemma add_frame_id [simp]: "instance_id (add_frame iid fr i) = instance_id i"
  by (simp add: add_frame_def)

lemma ids_in_frame_add_frame:
  assumes "distinct (map instance_id xs)" "iid \<notin> set (ids_in_frame xs f)"
    "distinct (ids_in_frame xs f)" "frame_nr fr = f"
  shows "distinct (ids_in_frame (map (add_frame iid fr) xs) f)
         \<and> set (ids_in_frame (map (add_frame iid fr) xs) f)
             = (if iid \<in> instance_id ` set xs then insert iid (set (ids_in_frame xs f))
                else set (ids_in_frame xs f))"
  using assms
proof (induction xs)
  case Nil
  then show ?case by simp
next
  case (Cons x xs)
  show ?case
  proof (cases "instance_id x = iid")
    case True
    then have "iid \<notin> instance_id ` set xs" using Cons.prems(1) by auto
    then have same: "map (add_frame iid fr) xs = xs" by (rule add_frame_absent)
    have nofr: "filter (\<lambda>fr. frame_nr fr = f) (frames x) = []"
      using Cons.prems(2) True by (cases "filter (\<lambda>fr. frame_nr fr = f) (frames x)") auto
    have ax: "add_frame iid fr x = x\<lparr>frames := frames x @ [fr]\<rparr>"
      using True by (simp add: add_frame_def)
    show ?thesis
      using True nofr Cons.prems by (simp add: same ax)
  next
    case False
    have ih: "distinct (ids_in_frame (map (add_frame iid fr) xs) f)
         \<and> set (ids_in_frame (map (add_frame iid fr) xs) f)
             = (if iid \<in> instance_id ` set xs then insert iid (set (ids_in_frame xs f))
                else set (ids_in_frame xs f))"
      using Cons.IH Cons.prems by auto
    have ax: "add_frame iid fr x = x" using False by (simp add: add_frame_def)
    show ?thesis
      using False ih Cons.prems ax by (auto simp: distinct_map split: if_splits)
  qed
qed

lemma append_frame_with_label:
  "append_frame_to_instance db iid fr (Some l) =
     (Inr (), db\<lparr>instances := (if iid \<in> instance_id ` set (instances db)
                                 then map (add_frame iid fr) (instances db)
                                 else instances db @ [Instance_init iid l fr])\<rparr>)"
  using append_frame_found [of iid db fr "Some l"] append_frame_not_found [of iid db fr "Some l"]
  by (cases "iid \<in> instance_id ` set (instances db)") simp_all

lemma frames_add_frame:
  "set (frames (add_frame iid fr i)) \<subseteq> insert fr (set (frames i))"
  by (auto simp: add_frame_def)

lemma tracker_inv_append:
  assumes inv: "tracker_inv db f"
    and same: "instances db1 = instances db" "instanceid_cnt db \<le> instanceid_cnt db1"
    and iid: "iid \<le> instanceid_cnt db1" "iid \<notin> set (get_instance_ids_in_frame db f)"
    and fr: "frame_nr fr = f"
  shows "tracker_inv (snd (append_frame_to_instance db1 iid fr (Some l))) f
    \<and> set (get_instance_ids_in_frame (snd (append_frame_to_instance db1 iid fr (Some l))) f)
        = insert iid (set (get_instance_ids_in_frame db f))"
proof (cases "iid \<in> instance_id ` set (instances db)")
  case True
  have d: "distinct (ids_in_frame (map (add_frame iid fr) (instances db)) f)"
    "set (ids_in_frame (map (add_frame iid fr) (instances db)) f)
       = insert iid (set (ids_in_frame (instances db) f))"
    using ids_in_frame_add_frame [of "instances db" iid f fr] inv iid(2) fr True
    by (simp_all add: tracker_inv_def get_ids_conv)
  have le: "\<forall>i\<in>set (instances db). \<forall>x\<in>set (frames (add_frame iid fr i)). frame_nr x \<le> f"
    using inv fr frames_add_frame [of iid fr] by (fastforce simp: tracker_inv_def list_all_iff)
  show ?thesis
    using True inv same iid(1) d le
    by (auto simp: append_frame_with_label tracker_inv_def get_ids_conv list_all_iff comp_def)
next
  case False
  have "iid \<notin> set (ids_in_frame (instances db) f)"
    using iid(2) by (simp add: get_ids_conv)
  then show ?thesis
    using False inv same iid(1) fr
    by (auto simp: append_frame_with_label tracker_inv_def get_ids_conv list_all_iff
        Instance_init_def)
qed

lemma select_best_mem:
  "IOUs \<noteq> [] \<Longrightarrow> \<exists>b\<in>set IOUs. select_best IOUs = Inr b"
  using select_best_first_max [of IOUs] by (metis nth_mem)

text \<open>
  The choice of an id never raises while the invariant holds. The id it returns is
  not yet listed for the frame and not above the counter it leaves, and the
  instances are untouched.
\<close>

lemma choose_instance_id_total:
  assumes inv: "tracker_inv db f"
  shows "\<exists>iid db1. choose_instance_id db f lbl m = Inr (iid, db1)
      \<and> instances db1 = instances db \<and> instanceid_cnt db \<le> instanceid_cnt db1
      \<and> iid \<le> instanceid_cnt db1 \<and> iid \<notin> set (get_instance_ids_in_frame db f)"
proof -
  let ?C = "get_instances_of_type_in_frame db lbl (f - 1)"
  have fresh: "instanceid_cnt db + 1 \<notin> set (get_instance_ids_in_frame db f)"
    using inv ids_in_frame_subset [of "instances db" f]
    by (fastforce simp: tracker_inv_def get_ids_conv list_all_iff)
  show ?thesis
  proof (cases "?C = []")
    case True
    then show ?thesis using fresh
      by (simp add: choose_instance_id_def get_unused_instance_id_def)
  next
    case False
    have "\<forall>i\<in>set ?C. has_frame i (f - 1)" by (simp add: type_in_frame_mem)
    then obtain IOUs where I: "compute_IOUs ?C (f - 1) m = Inr IOUs"
      "list_all2 (\<lambda>c p. fst p = instance_id c
            \<and> (\<exists>fr. get_frame_with_nr c (f - 1) = Inr fr
                  \<and> snd p = get_equal_white_pixel_count (segm_mask fr) m)) ?C IOUs"
      using compute_IOUs_total by blast
    then have "IOUs \<noteq> []" using False by auto
    then obtain b where b: "b \<in> set IOUs" "select_best IOUs = Inr b"
      using select_best_mem by blast
    obtain k where k: "k < length IOUs" "b = IOUs ! k"
      using b(1) by (auto simp: in_set_conv_nth)
    have len: "length ?C = length IOUs" using I(2) by (rule list_all2_lengthD)
    have "fst (IOUs ! k) = instance_id (?C ! k)"
      using I(2) k(1) len by (simp add: list_all2_conv_all_nth)
    moreover have "?C ! k \<in> set ?C" using k(1) len by simp
    ultimately obtain c where "c \<in> set ?C" "fst b = instance_id c"
      using k(2) by blast
    then have "fst b \<in> instance_id ` set (instances db)"
      by (auto simp: type_in_frame_mem)
    then have le: "fst b \<le> instanceid_cnt db"
      using inv by (auto simp: tracker_inv_def list_all_iff)
    show ?thesis
      using False I(1) b(2) le fresh
      by (cases b) (auto simp: choose_instance_id_def py_bind_def get_unused_instance_id_def Let_def)
  qed
qed

lemma commit_detection_inv:
  assumes "tracker_inv db f"
  shows "fst (commit_detection db f d) = Inr () \<and> tracker_inv (snd (commit_detection db f d)) f
    \<and> length (get_instance_ids_in_frame (snd (commit_detection db f d)) f)
        = Suc (length (get_instance_ids_in_frame db f))"
proof -
  obtain lbl m bbox rbox where d: "d = (lbl, m, bbox, rbox)" by (cases d) auto
  obtain iid db1 where c: "choose_instance_id db f lbl m = Inr (iid, db1)"
      "instances db1 = instances db" "instanceid_cnt db \<le> instanceid_cnt db1"
      "iid \<le> instanceid_cnt db1" "iid \<notin> set (get_instance_ids_in_frame db f)"
    using choose_instance_id_total [OF assms] by blast
  let ?fr = "\<lparr>frame_nr = f, segm_mask = m, segm_bbox = bbox, segm_rbox = rbox\<rparr>"
  let ?db2 = "snd (append_frame_to_instance db1 iid ?fr (Some lbl))"
  have a: "tracker_inv ?db2 f"
    "set (get_instance_ids_in_frame ?db2 f) = insert iid (set (get_instance_ids_in_frame db f))"
    using tracker_inv_append [OF assms c(2,3,4,5), of ?fr lbl] by simp_all
  have "card (set (get_instance_ids_in_frame ?db2 f))
          = Suc (card (set (get_instance_ids_in_frame db f)))"
    using c(5) by (simp add: a(2))
  moreover have "distinct (get_instance_ids_in_frame ?db2 f)"
    "distinct (get_instance_ids_in_frame db f)"
    using a(1) assms by (simp_all add: tracker_inv_def)
  ultimately have "length (get_instance_ids_in_frame ?db2 f)
          = Suc (length (get_instance_ids_in_frame db f))"
    by (simp add: distinct_card)
  then show ?thesis
    using a(1) by (simp add: commit_detection_def d c(1) append_frame_with_label)
qed

lemma commit_detections_inv:
  "tracker_inv db f \<Longrightarrow>
     fst (commit_detections db f ds) = Inr () \<and> tracker_inv (snd (commit_detections db f ds)) f
     \<and> length (get_instance_ids_in_frame (snd (commit_detections db f ds)) f)
        = length (get_instance_ids_in_frame db f) + length ds"
proof (induction ds arbitrary: db)
  case Nil
  then show ?case by simp
next
  case (Cons d ds)
  obtain r db1 where r: "commit_detection db f d = (r, db1)" by (cases "commit_detection db f d")
  then have "r = Inr ()" "tracker_inv db1 f"
    "length (get_instance_ids_in_frame db1 f) = Suc (length (get_instance_ids_in_frame db f))"
    using commit_detection_inv [OF Cons.prems, of d] by auto
  then show ?case using Cons.IH [of db1] r by simp
qed

lemma tracker_inv_clean:
  assumes "tracker_inv db f"
  shows "tracker_inv (snd (clean db f)) (f + 1)
    \<and> get_instance_ids_in_frame (snd (clean db f)) (f + 1) = []"
proof -
  let ?keep = "filter (\<lambda>i. instance_id i \<in> set (get_instance_ids_in_frame db f)) (instances db)"
  have "\<forall>i\<in>set ?keep. \<forall>fr\<in>set (frames i). frame_nr fr \<noteq> f + 1"
    using assms by (fastforce simp: tracker_inv_def list_all_iff)
  then have "ids_in_frame ?keep (f + 1) = []" by (rule ids_in_frame_none)
  moreover have "\<forall>i\<in>set ?keep. \<forall>fr\<in>set (frames i). frame_nr fr \<le> f + 1"
    using assms by (fastforce simp: tracker_inv_def list_all_iff)
  ultimately show ?thesis
    using assms
    by (auto simp: clean_def Let_def tracker_inv_def get_ids_conv list_all_iff distinct_map_filter)
qed

lemma tracker_inv_init: "tracker_inv (InstanceDB_init None) 0"
  by (simp add: tracker_inv_def InstanceDB_init_def get_instance_ids_in_frame_def)

lemma frame_loop_inv:
  "tracker_inv db f \<Longrightarrow> get_instance_ids_in_frame db f = [] \<Longrightarrow>
     \<exists>db' tubes'. frame_loop s db f tubes fs = Inr (db', f + int (length fs), tubes')
        \<and> tracker_inv db' (f + int (length fs))
        \<and> get_instance_ids_in_frame db' (f + int (length fs)) = []"
proof (induction fs arbitrary: db f tubes)
  case Nil
  then show ?case by simp
next
  case (Cons dets fs)
  obtain r db1 where r: "commit_detections db f dets = (r, db1)"
    by (cases "commit_detections db f dets")
  then have 1: "r = Inr ()" "tracker_inv db1 f"
    using commit_detections_inv [OF Cons.prems(1), of dets] by auto
  obtain del db2 where c: "clean db1 f = (del, db2)" by (cases "clean db1 f")
  then have 2: "tracker_inv db2 (f + 1)" "get_instance_ids_in_frame db2 (f + 1) = []"
    using tracker_inv_clean [OF 1(2)] by simp_all
  show ?case
    using Cons.IH [OF 2] r 1(1) c by (simp add: add.assoc)
qed

lemma ids_of_new_store: "get_instance_ids_in_frame (InstanceDB_init None) 0 = []"
  by (simp add: InstanceDB_init_def get_instance_ids_in_frame_def)

text \<open>The loop over the frames never ends in an exception.\<close>

lemma frame_loop_total:
  "\<exists>db tubes. frame_loop s (InstanceDB_init None) 0 [] fs = Inr (db, int (length fs), tubes)"
  using frame_loop_inv [OF tracker_inv_init ids_of_new_store, of s "[]" fs] by auto

text \<open>
  The last \<open>clean\<close> of a run finds no instance in the frame after the last one: every
  run ends without an exception and with an empty store.
\<close>

lemma track_video_leaves_empty_store:
  "\<exists>db tubes. track_video s n fs = Inr (db, tubes) \<and> instances db = []"
proof -
  let ?save = "if s \<and> int (length fs) < n then False else s"
  obtain db tubes where l: "frame_loop ?save (InstanceDB_init None) 0 [] fs
        = Inr (db, 0 + int (length fs), tubes)"
    and e: "get_instance_ids_in_frame db (0 + int (length fs)) = []"
    using frame_loop_inv [OF tracker_inv_init ids_of_new_store, of ?save "[]" fs] by blast
  have "instances (snd (clean db (0 + int (length fs)))) = []"
    unfolding clean_def Let_def e by simp
  then show ?thesis
    using l by (cases "clean db (0 + int (length fs))") (auto simp: track_video_def Let_def)
qed

text \<open>
  The id chosen for a detection is either the id of the best instance of the
  previous frame, with a positive score and not yet listed for the current frame,
  and then the store is as it was; or it is the next value of the counter.
\<close>

lemma choose_instance_id_cases:
  assumes "choose_instance_id db f lbl m = Inr (iid, db1)"
  shows "(db1 = db \<and> iid \<notin> set (get_instance_ids_in_frame db f)
          \<and> (\<exists>IOUs best_iou.
                compute_IOUs (get_instances_of_type_in_frame db lbl (f - 1)) (f - 1) m = Inr IOUs
                \<and> select_best IOUs = Inr (iid, best_iou) \<and> 0 < best_iou))
       \<or> (iid = instanceid_cnt db + 1 \<and> db1 = db\<lparr>instanceid_cnt := instanceid_cnt db + 1\<rparr>)"
  using assms
  by (auto simp: choose_instance_id_def Let_def py_bind_def get_unused_instance_id_def
      split: if_splits sum.splits prod.splits)

text \<open>
  On every store on which the script calls \<open>clean\<close>, the store after the commits of
  a frame the loop has reached, \<open>clean\<close> parts the live instances into those without
  and those with a frame record of the number.
\<close>

lemma clean_partition_in_loop:
  assumes "frame_loop s (InstanceDB_init None) 0 [] earlier = Inr (db, f, tubes)"
    and "db1 = snd (commit_detections db f dets)"
  shows "fst (clean db1 n) = filter (\<lambda>i. \<not> has_frame i n) (instances db1)
    \<and> instances (snd (clean db1 n)) = filter (\<lambda>i. has_frame i n) (instances db1)"
proof -
  have "tracker_inv db f"
    using frame_loop_inv [OF tracker_inv_init ids_of_new_store, of s "[]" earlier] assms(1)
    by auto
  then have "tracker_inv db1 f"
    using commit_detections_inv [of db f dets] assms(2) by simp
  then have "distinct (map instance_id (instances db1))" by (simp add: tracker_inv_def)
  then show ?thesis by (rule clean_partition_distinct)
qed

text \<open>
  C3. Let the loop, started on an empty store at frame 0, have reached frame \<open>f\<close>
  with the store \<open>db\<close>, after any detections in the earlier frames. Then for every
  list of detections of frame \<open>f\<close>, in every order, all commits succeed, and
  afterwards \<open>get_instance_ids_in_frame f\<close> lists no id twice and has one entry for
  each detection: no two detections of the frame got the same id.
\<close>

theorem one_id_per_frame:
  assumes "frame_loop s (InstanceDB_init None) 0 [] earlier = Inr (db, f, tubes)"
  shows "fst (commit_detections db f dets) = Inr ()
    \<and> distinct (get_instance_ids_in_frame (snd (commit_detections db f dets)) f)
    \<and> length (get_instance_ids_in_frame (snd (commit_detections db f dets)) f) = length dets"
proof -
  have "tracker_inv db f \<and> get_instance_ids_in_frame db f = []"
    using frame_loop_inv [OF tracker_inv_init ids_of_new_store, of s "[]" earlier] assms by auto
  then show ?thesis
    using commit_detections_inv [of db f dets] by (simp add: tracker_inv_def)
qed

theorem one_id_per_frame_witness:
  "frame_loop True (InstanceDB_init None) 0 [] [[upper_row]] = Inr (after_first_frame, 1, [])
   \<and> fst (commit_detections after_first_frame 1 [upper_left, upper_right]) = Inr ()
   \<and> get_instance_ids_in_frame
        (snd (commit_detections after_first_frame 1 [upper_left, upper_right])) 1 = [1, 2]"
proof -
  have h: "frame_loop True (InstanceDB_init None) 0 [] [[upper_row]]
             = Inr (after_first_frame, 1, [])"
    by code_simp
  have e: "get_instance_ids_in_frame
        (snd (commit_detections after_first_frame 1 [upper_left, upper_right])) 1 = [1, 2]"
    by code_simp
  show ?thesis
    using one_id_per_frame [OF h, of "[upper_left, upper_right]"] h e by simp
qed

section \<open>Tubes\<close>

lemma running_min_IntVal:
  "running_min xs (IntVal a) = IntVal (Min (insert a (set xs)))"
proof (induction xs arbitrary: a)
  case Nil
  then show ?case by (simp add: running_min_def)
next
  case (Cons x xs)
  have "running_min (x # xs) (IntVal a) = running_min xs (IntVal (min x a))"
    by (simp add: running_min_def min_def)
  also have "\<dots> = IntVal (Min (insert (min x a) (set xs)))" by (rule Cons.IH)
  also have "Min (insert (min x a) (set xs)) = Min (insert a (set (x # xs)))"
    by (cases "xs = []") (auto simp: min.commute min.left_commute Min_insert2 min.assoc)
  finally show ?case .
qed

lemma running_min_FloatInf:
  "xs \<noteq> [] \<Longrightarrow> running_min xs FloatInf = IntVal (Min (set xs))"
proof (cases xs)
  case Nil
  then show "xs \<noteq> [] \<Longrightarrow> ?thesis" by simp
next
  case (Cons x xs')
  have "running_min (x # xs') FloatInf = running_min xs' (IntVal x)"
    by (simp add: running_min_def)
  then show ?thesis using Cons by (simp add: running_min_IntVal)
qed

lemma running_max_eq: "running_max xs a = Max (insert a (set xs))"
proof (induction xs arbitrary: a)
  case Nil
  then show ?case by (simp add: running_max_def)
next
  case (Cons x xs)
  have "running_max (x # xs) a = running_max xs (max x a)"
    by (simp add: running_max_def max_def)
  also have "\<dots> = Max (insert (max x a) (set xs))" by (rule Cons.IH)
  also have "Max (insert (max x a) (set xs)) = Max (insert a (set (x # xs)))"
    by (cases "xs = []") (auto simp: max.commute max.left_commute max.assoc)
  finally show ?case .
qed

lemma running_append:
  "running_min (xs @ ys) m = running_min ys (running_min xs m)"
  "running_max (xs @ ys) a = running_max ys (running_max xs a)"
  by (simp_all add: running_min_def running_max_def)

lemma scan_points_fields:
  "min_x (fold scan_point ps t) = running_min (map fst ps) (min_x t)"
  "min_y (fold scan_point ps t) = running_min (map snd ps) (min_y t)"
  "max_x (fold scan_point ps t) = running_max (map fst ps) (max_x t)"
  "max_y (fold scan_point ps t) = running_max (map snd ps) (max_y t)"
  "min_frame (fold scan_point ps t) = min_frame t"
  "max_frame (fold scan_point ps t) = max_frame t"
  "label (fold scan_point ps t) = label t"
  "tube_id (fold scan_point ps t) = tube_id t"
  by (induction ps arbitrary: t; simp add: scan_point_def running_min_def running_max_def)+

lemma scan_frame_fields:
  "min_x (scan_frame fr t) = running_min (map fst (segm_bbox fr)) (min_x t)"
  "min_y (scan_frame fr t) = running_min (map snd (segm_bbox fr)) (min_y t)"
  "max_x (scan_frame fr t) = running_max (map fst (segm_bbox fr)) (max_x t)"
  "max_y (scan_frame fr t) = running_max (map snd (segm_bbox fr)) (max_y t)"
  "min_frame (scan_frame fr t) = running_min [frame_nr fr] (min_frame t)"
  "max_frame (scan_frame fr t) = running_max [frame_nr fr] (max_frame t)"
  "label (scan_frame fr t) = label t"
  "tube_id (scan_frame fr t) = tube_id t"
  by (simp_all add: scan_frame_def scan_points_fields running_min_def running_max_def)

lemma scan_frames_fields:
  "min_x (fold scan_frame frs t) = running_min (map fst (concat (map segm_bbox frs))) (min_x t)
   \<and> min_y (fold scan_frame frs t) = running_min (map snd (concat (map segm_bbox frs))) (min_y t)
   \<and> max_x (fold scan_frame frs t) = running_max (map fst (concat (map segm_bbox frs))) (max_x t)
   \<and> max_y (fold scan_frame frs t) = running_max (map snd (concat (map segm_bbox frs))) (max_y t)
   \<and> min_frame (fold scan_frame frs t) = running_min (map frame_nr frs) (min_frame t)
   \<and> max_frame (fold scan_frame frs t) = running_max (map frame_nr frs) (max_frame t)
   \<and> label (fold scan_frame frs t) = label t
   \<and> tube_id (fold scan_frame frs t) = tube_id t"
proof (induction frs arbitrary: t)
  case Nil
  then show ?case by (simp add: running_min_def running_max_def)
next
  case (Cons fr frs)
  show ?case
    using Cons.IH [of "scan_frame fr t"]
    by (simp add: scan_frame_fields) (simp add: running_min_def running_max_def)
qed

lemma Tube_init_fields:
  "Tube_init i =
     \<lparr>label = Some (instance_of i), tube_id = Some (instance_id i),
      min_x = running_min (map fst (corners i)) FloatInf,
      min_y = running_min (map snd (corners i)) FloatInf,
      max_x = running_max (map fst (corners i)) 0,
      max_y = running_max (map snd (corners i)) 0,
      min_frame = running_min (frame_numbers i) FloatInf,
      max_frame = running_max (frame_numbers i) 0\<rparr>"
  by (rule Tube.equality)
     (simp_all add: Tube_init_def create_from_instance_def scan_frames_fields Tube_defaults_def
        corners_def frame_numbers_def)

lemma running_max_attained:
  assumes "\<exists>x\<in>set xs. 0 \<le> x"
  shows "running_max xs 0 = Max (set xs)"
proof -
  obtain x where x: "x \<in> set xs" "0 \<le> x" using assms by blast
  then have ne: "set xs \<noteq> {}" by auto
  have "x \<le> Max (set xs)" using x(1) by simp
  then have "0 \<le> Max (set xs)" using x(2) by simp
  moreover have "Max (insert 0 (set xs)) = max 0 (Max (set xs))"
    using ne by simp
  ultimately show ?thesis by (simp add: running_max_eq)
qed

text \<open>
  C6. For an instance with at least one frame and at least one corner point, in
  which some frame number, some x coordinate and some y coordinate is not
  negative, as in every instance of a run, whose frame numbers count from 0 and
  whose corners are pixel coordinates: the tube has the least and the greatest
  frame number as \<open>min_frame\<close> and \<open>max_frame\<close>, and the least and the greatest x and
  y coordinate of all corner points as its box, so every bound is the coordinate of
  a corner; its label and id are those of the instance. Every field of the tube is
  given by the frames, the label and the id of the instance.
\<close>

theorem tube_bounds:
  assumes "frames i \<noteq> []" and "corners i \<noteq> []"
    and "\<exists>n\<in>set (frame_numbers i). 0 \<le> n"
    and "\<exists>p\<in>set (corners i). 0 \<le> fst p"
    and "\<exists>p\<in>set (corners i). 0 \<le> snd p"
  shows "Tube_init i =
     \<lparr>label = Some (instance_of i), tube_id = Some (instance_id i),
      min_x = IntVal (Min (fst ` set (corners i))),
      min_y = IntVal (Min (snd ` set (corners i))),
      max_x = Max (fst ` set (corners i)),
      max_y = Max (snd ` set (corners i)),
      min_frame = IntVal (Min (set (frame_numbers i))),
      max_frame = Max (set (frame_numbers i))\<rparr>"
proof -
  have f: "frame_numbers i \<noteq> []" using assms(1) by (simp add: frame_numbers_def)
  have "running_max (map fst (corners i)) 0 = Max (fst ` set (corners i))"
    using running_max_attained [of "map fst (corners i)"] assms(4) by simp
  moreover have "running_max (map snd (corners i)) 0 = Max (snd ` set (corners i))"
    using running_max_attained [of "map snd (corners i)"] assms(5) by simp
  moreover have "running_max (frame_numbers i) 0 = Max (set (frame_numbers i))"
    using running_max_attained [OF assms(3)] .
  moreover have "running_min (map fst (corners i)) FloatInf = IntVal (Min (fst ` set (corners i)))"
    using running_min_FloatInf [of "map fst (corners i)"] assms(2) by simp
  moreover have "running_min (map snd (corners i)) FloatInf = IntVal (Min (snd ` set (corners i)))"
    using running_min_FloatInf [of "map snd (corners i)"] assms(2) by simp
  moreover have "running_min (frame_numbers i) FloatInf = IntVal (Min (set (frame_numbers i)))"
    using running_min_FloatInf [OF f] .
  ultimately show ?thesis by (simp add: Tube_init_fields)
qed

theorem tube_bounds_witness:
  "frames kicker \<noteq> [] \<and> corners kicker \<noteq> []
   \<and> Tube_init kicker =
       \<lparr>label = Some ''kicking'', tube_id = Some 5, min_x = IntVal 0, min_y = IntVal 2,
        max_x = 6, max_y = 5, min_frame = IntVal 0, max_frame = 2\<rparr>"
  using tube_bounds [of kicker]
  by (simp add: kicker_def example_frame_def corners_def frame_numbers_def)

lemma tube_has_min_frame:
  "frames i \<noteq> [] \<Longrightarrow> min_frame (Tube_init i) = IntVal (Min (set (frame_numbers i)))"
  using running_min_FloatInf [of "frame_numbers i"]
  by (simp add: Tube_init_fields frame_numbers_def)

text \<open>
  C7. A tube with an integer \<open>min_frame\<close>, as every tube made from an instance has
  it, is in the filtered list exactly when it is in the list and \<open>max_frame\<close> minus
  \<open>min_frame\<close> is at least \<open>MIN_TUBE_LENGTH\<close>: a tube whose difference equals the
  threshold is kept.
\<close>

theorem duration_filter:
  "min_frame tube = IntVal lo \<Longrightarrow>
     (tube \<in> set (tubeslist_filter MIN_TUBE_LENGTH tubeslist)
        \<longleftrightarrow> tube \<in> set tubeslist \<and> max_frame tube - lo \<ge> MIN_TUBE_LENGTH)"
  by (auto simp: tubeslist_filter_def long_enough_def)

theorem duration_filter_witness:
  "min_frame (Tube_init kicker) = IntVal 0
   \<and> max_frame (Tube_init kicker) = 2
   \<and> Tube_init kicker \<in> set (tubeslist_filter 2 [Tube_init kicker])
   \<and> Tube_init kicker \<notin> set (tubeslist_filter 3 [Tube_init kicker])"
proof -
  have m: "min_frame (Tube_init kicker) = IntVal 0"
    using tube_has_min_frame [of kicker]
    by (simp add: kicker_def example_frame_def frame_numbers_def)
  have x: "max_frame (Tube_init kicker) = 2"
    by (simp add: Tube_init_fields kicker_def example_frame_def frame_numbers_def
        running_max_def)
  show ?thesis
    using duration_filter [OF m, of 2 "[Tube_init kicker]"]
      duration_filter [OF m, of 3 "[Tube_init kicker]"] m x
    by simp
qed

end
